theory Spec2Isabelle
  imports Main "HOL-Library.Sublist"
begin

section \<open>Values on the wire\<close>

text \<open>
  The server builds every outgoing message as a Python dictionary and hands
  \<^verbatim>\<open>json.dumps(message)\<close> to the connection. The model keeps the dictionary itself:
  a JSON value whose objects are association lists in insertion order, as Python
  dictionaries are. Python's \<^verbatim>\<open>None\<close> is \<open>JNull\<close>.
\<close>

datatype json =
    JNull
  | JBool bool
  | JInt int
  | JStr string
  | JList "json list"
  | JDict "(string \<times> json) list"

text \<open>Python truthiness, as \<^verbatim>\<open>if execution_result.data:\<close> tests it.\<close>

fun truthy :: "json \<Rightarrow> bool" where
  "truthy JNull = False"
| "truthy (JBool b) = b"
| "truthy (JInt n) = (n \<noteq> 0)"
| "truthy (JStr s) = (s \<noteq> [])"
| "truthy (JList xs) = (xs \<noteq> [])"
| "truthy (JDict kvs) = (kvs \<noteq> [])"

text \<open>
  \<^verbatim>\<open>d[k] = v\<close> on a dictionary: an existing key keeps its place and takes the new
  value, a new key goes to the end. \<^verbatim>\<open>d.get(k)\<close> is \<open>map_of d k\<close>, \<^verbatim>\<open>k in d\<close> is
  \<open>dict_contains\<close>, and \<^verbatim>\<open>del d[k]\<close> drops the entry.
\<close>

fun dict_set :: "('k \<times> 'v) list \<Rightarrow> 'k \<Rightarrow> 'v \<Rightarrow> ('k \<times> 'v) list" where
  "dict_set [] k v = [(k, v)]"
| "dict_set (p # ps) k v = (if fst p = k then (k, v) # ps else p # dict_set ps k v)"

definition dict_contains :: "('k \<times> 'v) list \<Rightarrow> 'k \<Rightarrow> bool" where
  "dict_contains d k = (k \<in> set (map fst d))"

definition dict_del :: "('k \<times> 'v) list \<Rightarrow> 'k \<Rightarrow> ('k \<times> 'v) list" where
  "dict_del d k = filter (\<lambda>p. fst p \<noteq> k) d"

text \<open>
  Modelled from the spec: \<^verbatim>\<open>GQLMsgType\<close> lives in \<^verbatim>\<open>graphql_ws/protocol.py\<close>, which is
  not among the sources. The spec gives the closed enumeration and the value each member
  has on the wire (\<^verbatim>\<open>type.value\<close>).
\<close>

datatype GQLMsgType =
    CONNECTION_INIT
  | CONNECTION_ACK
  | SUBSCRIBE
  | NEXT
  | ERROR
  | COMPLETE
  | PING
  | PONG

fun type_value :: "GQLMsgType \<Rightarrow> string" where
  "type_value CONNECTION_INIT = ''connection_init''"
| "type_value CONNECTION_ACK = ''connection_ack''"
| "type_value SUBSCRIBE = ''subscribe''"
| "type_value NEXT = ''next''"
| "type_value ERROR = ''error''"
| "type_value COMPLETE = ''complete''"
| "type_value PING = ''ping''"
| "type_value PONG = ''pong''"

text \<open>
  The dictionary \<^verbatim>\<open>send_message\<close> builds (server.py, lines 78 to 82) before it is
  serialised and sent.
\<close>

definition build_message :: "string option \<Rightarrow> GQLMsgType \<Rightarrow> json \<Rightarrow> (string \<times> json) list" where
  "build_message op_id ty payload =
     (let message = [(''type'', JStr (type_value ty))];
          message = (case op_id of None \<Rightarrow> message
                     | Some i \<Rightarrow> dict_set message ''id'' (JStr i));
          message = (if payload \<noteq> JNull then dict_set message ''payload'' payload
                     else message)
      in message)"

section \<open>The aiohttp binding: receive\<close>

text \<open>
  \<^verbatim>\<open>aiohttp.WSMsgType\<close> is the frame type of the transport library. A frame carries
  its type and its data; \<^verbatim>\<open>AiohttpConnectionContext.receive\<close> (aiohttp.py, lines 12
  to 26) returns the data of a text frame, raises \<^verbatim>\<open>ConnectionClosed\<close> on three frame
  types and returns \<^verbatim>\<open>None\<close> on every other one.
\<close>

datatype WSMsgType =
    CONTINUATION
  | TEXT
  | BINARY
  | WS_PING
  | WS_PONG
  | CLOSE
  | CLOSING
  | CLOSED
  | WS_ERROR

record 'd ws_message =
  frame_type :: WSMsgType
  frame_data :: 'd

datatype server_exception = ConnectionClosed

definition receive :: "'d ws_message \<Rightarrow> server_exception + 'd option" where
  "receive message =
     (if frame_type message = TEXT then Inr (Some (frame_data message))
      else if frame_type message \<in> set [CLOSED, CLOSING, WS_ERROR] then Inl ConnectionClosed
      else Inr None)"

text \<open>
  \<^verbatim>\<open>closed\<close> and \<^verbatim>\<open>send\<close> of the binding (aiohttp.py, lines 28 to 30 and 35 to 38)
  over the state of the socket: whether it is closed, and the texts written to it with
  \<^verbatim>\<open>ws.send_str(data)\<close>.
\<close>

record websocket =
  ws_closed :: bool
  ws_written :: "string list"

definition closed :: "websocket \<Rightarrow> bool" where
  "closed ws = ws_closed ws"

definition aiohttp_send :: "websocket \<Rightarrow> string \<Rightarrow> websocket" where
  "aiohttp_send ws data =
     (if closed ws then ws else ws\<lparr>ws_written := ws_written ws @ [data]\<rparr>)"

section \<open>The connection as the server sees it\<close>

text \<open>
  Modelled from the spec: the two close codes are constants of
  \<^verbatim>\<open>graphql_ws/protocol.py\<close>, which is not among the sources; the spec says they are two
  distinct reserved codes, one for an internal or initialisation failure and one for a
  duplicate operation id. Their numeric values play no role here.
\<close>

datatype close_code = WS_INTERNAL_ERROR | WS_ERROR_ID_ALREADY_EXISTS

text \<open>
  The server talks to the transport through \<^verbatim>\<open>connection_context.send(data)\<close> and
  \<^verbatim>\<open>connection_context.close(code)\<close> only. The model records these calls, in order,
  in \<open>trace\<close>: a message counts as sent when the server hands it to \<^verbatim>\<open>send\<close>. (The
  aiohttp binding then writes it to the socket unless the socket is already closed, see
  \<open>aiohttp_send\<close> below.) Both calls are taken to return normally.
\<close>

datatype action = Send json | Close close_code

text \<open>
  \<^verbatim>\<open>on_subscribe\<close> suspends at two places: at the \<^verbatim>\<open>await\<close> of the execution engine
  (lines 205 and 213) and, once it has an asynchronous iterator, at every step of the
  \<^verbatim>\<open>async for\<close> (line 228). A task of the model is one \<^verbatim>\<open>on_message\<close> task of
  \<^verbatim>\<open>_handle\<close> that is suspended at one of these places, or has finished. Tasks are
  kept in creation order and never removed, so the position of a task names it; it also
  names the iterator the engine returns to that task (every engine call returns an object
  of its own, and line 231 compares iterators by identity).
\<close>

datatype engine_entry = Subscribe_entry | Execute_entry

datatype task =
    Awaiting_engine "string option" engine_entry
  | Streaming "string option"
  | Done

text \<open>
  Modelled from the spec: \<^verbatim>\<open>AbstractConnectionContext\<close> lives in \<^verbatim>\<open>graphql_ws/abc.py\<close>,
  which is not among the sources. The spec gives it a registry of operations with
  mapping-style access (get, set, delete, containment, iteration over the keys), which
  the model reads as the dictionary operations on \<open>operations\<close>; a context is falsy
  (line 125) when that registry is empty.

  \<open>operations\<close> maps an operation id to the iterator stored under it. \<open>aclosed\<close> lists
  the iterators on which \<^verbatim>\<open>aclose()\<close> was called and \<open>completed\<close> the ids passed to the
  hook \<^verbatim>\<open>on_operation_complete\<close> (a no-op by default), both in call order.
\<close>

record connection =
  operations :: "(string option \<times> nat) list"
  tasks :: "task list"
  trace :: "action list"
  aclosed :: "nat list"
  completed :: "string option list"

definition send :: "connection \<Rightarrow> json \<Rightarrow> connection" where
  "send s data = s\<lparr>trace := trace s @ [Send data]\<rparr>"

definition close :: "connection \<Rightarrow> close_code \<Rightarrow> connection" where
  "close s code = s\<lparr>trace := trace s @ [Close code]\<rparr>"

text \<open>
  The state \<^verbatim>\<open>handle\<close> starts from (lines 43 and 47): a fresh context, and
  \<^verbatim>\<open>on_open\<close> does nothing.
\<close>

definition new_connection :: connection where
  "new_connection =
     \<lparr>operations = [], tasks = [], trace = [], aclosed = [], completed = []\<rparr>"

section \<open>The server\<close>

text \<open>An \<^verbatim>\<open>ExecutionResult\<close> of the engine: its data and its optional list of errors.\<close>

record 'e execution_result =
  data :: json
  errors :: "'e list option"

text \<open>
  Modelled from the spec: \<^verbatim>\<open>OperationMessage\<close> (\<^verbatim>\<open>graphql_ws/protocol.py\<close>, not among the
  sources) is the decoded envelope: a type, an optional id and a payload. The payload
  type is left open.
\<close>

record 'p operation_message =
  msg_type :: GQLMsgType
  msg_id :: "string option"
  msg_payload :: 'p

datatype hook_result = Returns | Raises

text \<open>
  What the server calls but does not define: the decoder \<^verbatim>\<open>OperationMessage.loads\<close>
  (\<open>Inl\<close> carries \<^verbatim>\<open>str(e)\<close> of the exception it raised), the payload's attribute
  \<^verbatim>\<open>has_subscription_operation\<close>, the hook \<^verbatim>\<open>on_connect\<close> (which an application
  overrides; it returns or raises, and does not touch the connection) and
  \<^verbatim>\<open>graphql.format_error\<close>.
\<close>

record ('p, 'e) collaborators =
  loads :: "string option \<Rightarrow> string + 'p operation_message"
  has_subscription_operation :: "'p \<Rightarrow> bool"
  on_connect :: "'p \<Rightarrow> hook_result"
  format_error :: "'e \<Rightarrow> json"

text \<open>\<^verbatim>\<open>send_message\<close>, lines 70 to 85.\<close>

definition send_message ::
  "connection \<Rightarrow> string option \<Rightarrow> GQLMsgType \<Rightarrow> json \<Rightarrow> connection" where
  "send_message s op_id ty payload = send s (JDict (build_message op_id ty payload))"

text \<open>\<^verbatim>\<open>send_error\<close>, lines 87 to 94; the error is given by its \<^verbatim>\<open>str\<close>.\<close>

definition send_error :: "connection \<Rightarrow> string option \<Rightarrow> string \<Rightarrow> connection" where
  "send_error s op_id error =
     (let error_payload = JDict [(''message'', JStr error)]
      in send_message s op_id ERROR error_payload)"

text \<open>
  The dictionary \<^verbatim>\<open>send_execution_result\<close> builds (lines 103 to 110), and the function
  itself (lines 96 to 113).
\<close>

definition execution_payload ::
  "('e \<Rightarrow> json) \<Rightarrow> 'e execution_result \<Rightarrow> bool \<Rightarrow> (string \<times> json) list" where
  "execution_payload fmt execution_result has_next =
     (let result = [];
          result = (if truthy (data execution_result)
                    then dict_set (dict_set result ''data'' (data execution_result))
                           ''hasNext'' (JBool has_next)
                    else result);
          result = (case errors execution_result of
                      None \<Rightarrow> result
                    | Some es \<Rightarrow>
                        if es \<noteq> [] then dict_set result ''errors'' (JList (map fmt es))
                        else result)
      in result)"

definition send_execution_result ::
  "('e \<Rightarrow> json) \<Rightarrow> connection \<Rightarrow> string option \<Rightarrow> 'e execution_result \<Rightarrow> bool
     \<Rightarrow> connection" where
  "send_execution_result fmt s op_id execution_result has_next =
     send_message s op_id NEXT (JDict (execution_payload fmt execution_result has_next))"

text \<open>
  \<^verbatim>\<open>unsubscribe\<close>, lines 115 to 121: if an iterator is stored under the id, close it
  and call \<^verbatim>\<open>on_operation_complete\<close>. The registry is not touched. \<^verbatim>\<open>aclose()\<close> is
  taken to return normally; that the loop over a closed iterator ends is the iterator's
  affair, and shows in a run as a later event \<open>Finish\<close> of its task.
\<close>

definition unsubscribe :: "connection \<Rightarrow> string option \<Rightarrow> connection" where
  "unsubscribe s op_id =
     (case map_of (operations s) op_id of
        None \<Rightarrow> s
      | Some operation \<Rightarrow>
          s\<lparr>aclosed := aclosed s @ [operation], completed := completed s @ [op_id]\<rparr>)"

text \<open>\<^verbatim>\<open>on_close\<close>, lines 124 to 132: unsubscribe every id of the registry.\<close>

definition on_close :: "connection \<Rightarrow> connection" where
  "on_close s =
     (if operations s = [] then s else foldl unsubscribe s (map fst (operations s)))"

text \<open>
  \<^verbatim>\<open>on_connection_init\<close>, lines 141 to 156. The \<^verbatim>\<open>try\<close> covers the hook and the
  sending of the acknowledgement; sending returns normally here, so the \<^verbatim>\<open>except\<close>
  branch is taken exactly when the hook raises.
\<close>

definition on_connection_init ::
  "('p, 'e) collaborators \<Rightarrow> connection \<Rightarrow> string option \<Rightarrow> 'p \<Rightarrow> connection" where
  "on_connection_init D s op_id payload =
     (case on_connect D payload of
        Returns \<Rightarrow> send_message s None CONNECTION_ACK JNull
      | Raises \<Rightarrow> close s WS_INTERNAL_ERROR)"

text \<open>
  \<^verbatim>\<open>on_subscribe\<close> up to its first suspension, lines 200 to 219: a duplicate id closes
  the connection and returns; otherwise one of the two engine entries is awaited.
\<close>

definition on_subscribe ::
  "('p, 'e) collaborators \<Rightarrow> connection \<Rightarrow> string option \<Rightarrow> 'p \<Rightarrow> connection" where
  "on_subscribe D s op_id payload =
     (if dict_contains (operations s) op_id then close s WS_ERROR_ID_ALREADY_EXISTS
      else s\<lparr>tasks := tasks s @
             [Awaiting_engine op_id
                (if has_subscription_operation D payload then Subscribe_entry
                 else Execute_entry)]\<rparr>)"

text \<open>\<^verbatim>\<open>on_complete\<close> (lines 237 to 240) and \<^verbatim>\<open>on_ping\<close> (lines 242 to 250).\<close>

definition on_complete :: "connection \<Rightarrow> string option \<Rightarrow> connection" where
  "on_complete s op_id = unsubscribe s op_id"

definition on_ping :: "connection \<Rightarrow> string option \<Rightarrow> 'p \<Rightarrow> connection" where
  "on_ping s op_id payload = send_message s None PONG JNull"

text \<open>\<^verbatim>\<open>loaded.id or ""\<close> of line 176.\<close>

definition id_or_empty :: "string option \<Rightarrow> string" where
  "id_or_empty i = (case i of None \<Rightarrow> [] | Some x \<Rightarrow> (if x = [] then [] else x))"

text \<open>\<^verbatim>\<open>on_message\<close>, lines 158 to 179.\<close>

definition on_message ::
  "('p, 'e) collaborators \<Rightarrow> connection \<Rightarrow> string option \<Rightarrow> connection" where
  "on_message D s message =
     (case loads D message of
        Inl e \<Rightarrow> send_error s None e
      | Inr loaded \<Rightarrow>
          if msg_type loaded = CONNECTION_INIT
          then on_connection_init D s (msg_id loaded) (msg_payload loaded)
          else if msg_type loaded = SUBSCRIBE
          then on_subscribe D s (msg_id loaded) (msg_payload loaded)
          else if msg_type loaded = COMPLETE
          then on_complete s (Some (id_or_empty (msg_id loaded)))
          else if msg_type loaded = PING
          then on_ping s (msg_id loaded) (msg_payload loaded)
          else s)"

text \<open>
  What the engine hands back to a waiting \<^verbatim>\<open>on_subscribe\<close>: a single result, an
  asynchronous iterator, or an exception. The rest of \<^verbatim>\<open>on_subscribe\<close> from there,
  lines 221 to 226: a single result is sent with \<^verbatim>\<open>has_next = False\<close> and the task
  returns; an iterator is stored under the id and the task enters the loop.
\<close>

datatype 'e engine_outcome =
    Execution_result "'e execution_result"
  | Async_iterator
  | Engine_raised

definition on_subscribe_result ::
  "('p, 'e) collaborators \<Rightarrow> connection \<Rightarrow> nat \<Rightarrow> 'e engine_outcome \<Rightarrow> connection" where
  "on_subscribe_result D s i outcome =
     (if i < length (tasks s) then
        (case tasks s ! i of
           Awaiting_engine op_id entry \<Rightarrow>
             (case outcome of
                Execution_result result \<Rightarrow>
                  (send_execution_result (format_error D) s op_id result False)
                    \<lparr>tasks := (tasks s)[i := Done]\<rparr>
              | Async_iterator \<Rightarrow>
                  s\<lparr>operations := dict_set (operations s) op_id i,
                    tasks := (tasks s)[i := Streaming op_id]\<rparr>
              | Engine_raised \<Rightarrow> s\<lparr>tasks := (tasks s)[i := Done]\<rparr>)
         | Streaming op_id \<Rightarrow> s
         | Done \<Rightarrow> s)
      else s)"

text \<open>The body of the loop, line 229: the value the iterator yields is sent.\<close>

definition on_subscribe_value ::
  "('p, 'e) collaborators \<Rightarrow> connection \<Rightarrow> nat \<Rightarrow> 'e execution_result \<Rightarrow> connection" where
  "on_subscribe_value D s i val =
     (if i < length (tasks s) then
        (case tasks s ! i of
           Streaming op_id \<Rightarrow> send_execution_result (format_error D) s op_id val True
         | Awaiting_engine op_id entry \<Rightarrow> s
         | Done \<Rightarrow> s)
      else s)"

text \<open>
  The \<^verbatim>\<open>finally\<close> block, lines 230 to 235, for the iterator \<open>result\<close> stored by this
  task: only if the registry still holds this very iterator under the id is the entry
  deleted and the Complete message sent.
\<close>

definition on_subscribe_finally :: "connection \<Rightarrow> string option \<Rightarrow> nat \<Rightarrow> connection" where
  "on_subscribe_finally s op_id result =
     (if map_of (operations s) op_id = Some result
      then send_message (s\<lparr>operations := dict_del (operations s) op_id\<rparr>) op_id COMPLETE JNull
      else s)"

text \<open>
  The loop of a streaming task ends (the iterator is exhausted or was closed, it raised,
  or the task was cancelled): the \<^verbatim>\<open>finally\<close> block runs and the task is over.
\<close>

definition finish :: "connection \<Rightarrow> nat \<Rightarrow> connection" where
  "finish s i =
     (if i < length (tasks s) then
        (case tasks s ! i of
           Streaming op_id \<Rightarrow> (on_subscribe_finally s op_id i)\<lparr>tasks := (tasks s)[i := Done]\<rparr>
         | Awaiting_engine op_id entry \<Rightarrow> s
         | Done \<Rightarrow> s)
      else s)"

text \<open>
  \<^verbatim>\<open>task.cancel()\<close>, line 68: a task waiting for the engine is outside the
  \<^verbatim>\<open>try\<close> and just ends; a streaming task is inside it and runs its \<^verbatim>\<open>finally\<close>.
\<close>

definition cancel :: "connection \<Rightarrow> nat \<Rightarrow> connection" where
  "cancel s i =
     (if i < length (tasks s) then
        (case tasks s ! i of
           Streaming op_id \<Rightarrow> finish s i
         | Awaiting_engine op_id entry \<Rightarrow> s\<lparr>tasks := (tasks s)[i := Done]\<rparr>
         | Done \<Rightarrow> s)
      else s)"

text \<open>
  The end of \<^verbatim>\<open>_handle\<close>, lines 66 to 68, after \<^verbatim>\<open>receive\<close> raised
  \<^verbatim>\<open>ConnectionClosed\<close>: \<^verbatim>\<open>on_close\<close>, then every task is cancelled (here in
  creation order; the source iterates over a set).
\<close>

definition handle_exit :: "connection \<Rightarrow> connection" where
  "handle_exit s = foldl cancel (on_close s) [0..<length (tasks s)]"

section \<open>Runs of a connection\<close>

text \<open>
  What happens on a connection, seen from the server: \<^verbatim>\<open>receive\<close> returns a message
  (and the task made for it runs up to its first suspension), the engine answers a
  waiting task, the iterator of a streaming task yields a value or ends, or
  \<^verbatim>\<open>receive\<close> raises \<^verbatim>\<open>ConnectionClosed\<close>. Between two suspensions a task runs alone
  (one thread, cooperative scheduling), so each event is one step. An event that names
  a task which is not waiting for it changes nothing. A run is any list of events: which
  task moves next, and when the engine or an iterator answers, is not fixed.
\<close>

datatype 'e event =
    Receive "string option"
  | Engine_returns nat "'e engine_outcome"
  | Yield nat "'e execution_result"
  | Finish nat
  | Connection_closed

fun step :: "('p, 'e) collaborators \<Rightarrow> 'e event \<Rightarrow> connection \<Rightarrow> connection" where
  "step D (Receive message) s = on_message D s message"
| "step D (Engine_returns i outcome) s = on_subscribe_result D s i outcome"
| "step D (Yield i val) s = on_subscribe_value D s i val"
| "step D (Finish i) s = finish s i"
| "step D Connection_closed s = handle_exit s"

fun run :: "('p, 'e) collaborators \<Rightarrow> 'e event list \<Rightarrow> connection \<Rightarrow> connection" where
  "run D [] s = s"
| "run D (e # es) s = run D es (step D e s)"

text \<open>The Complete message for an id, and how often a trace holds it.\<close>

definition complete_message :: "string option \<Rightarrow> action" where
  "complete_message op_id = Send (JDict (build_message op_id COMPLETE JNull))"

definition completes :: "string option \<Rightarrow> connection \<Rightarrow> nat" where
  "completes op_id s = count_list (trace s) (complete_message op_id)"

text \<open>
  \<open>unregistered_by k s s'\<close> is 1 when the id \<open>k\<close> is in the registry of \<open>s\<close> and no longer
  in that of \<open>s'\<close>, and 0 otherwise.
\<close>

definition unregistered_by :: "string option \<Rightarrow> connection \<Rightarrow> connection \<Rightarrow> nat" where
  "unregistered_by k s s' =
     (if map_of (operations s) k \<noteq> None \<and> map_of (operations s') k = None then 1 else 0)"

text \<open>
  The registry is a dictionary (no key twice), and every iterator it holds belongs to a
  task that is in its loop under that id.
\<close>

definition registry_ok :: "connection \<Rightarrow> bool" where
  "registry_ok s =
     (distinct (map fst (operations s))
      \<and> list_all (\<lambda>(k, i). i < length (tasks s) \<and> tasks s ! i = Streaming k) (operations s))"

text \<open>
  The Next message \<^verbatim>\<open>send_execution_result\<close> sends for a result, and the values the
  iterator of task \<open>i\<close> yields in a list of events, in order.
\<close>

definition next_message ::
  "('e \<Rightarrow> json) \<Rightarrow> string option \<Rightarrow> 'e execution_result \<Rightarrow> bool \<Rightarrow> action" where
  "next_message fmt op_id r has_next =
     Send (JDict (build_message op_id NEXT (JDict (execution_payload fmt r has_next))))"

fun yields_of :: "nat \<Rightarrow> 'e event list \<Rightarrow> 'e execution_result list" where
  "yields_of i [] = []"
| "yields_of i (Yield j v # es) = (if j = i then v # yields_of i es else yields_of i es)"
| "yields_of i (e # es) = yields_of i es"

section \<open>Sample collaborators and states\<close>

text \<open>
  A decoder that knows six messages, a hook that accepts every handshake and one that
  rejects every handshake, two engine results, and two states of a connection: one with a
  query waiting for the engine under the id 1 and one with a subscription streaming under
  the id 1. They give the theorems below concrete instances.
\<close>

definition sample_loads :: "string option \<Rightarrow> string + bool operation_message" where
  "sample_loads m =
     (if m = Some ''init'' then Inr \<lparr>msg_type = CONNECTION_INIT, msg_id = None, msg_payload = False\<rparr>
      else if m = Some ''subscribe 1''
      then Inr \<lparr>msg_type = SUBSCRIBE, msg_id = Some ''1'', msg_payload = True\<rparr>
      else if m = Some ''query 1''
      then Inr \<lparr>msg_type = SUBSCRIBE, msg_id = Some ''1'', msg_payload = False\<rparr>
      else if m = Some ''complete 1''
      then Inr \<lparr>msg_type = COMPLETE, msg_id = Some ''1'', msg_payload = False\<rparr>
      else if m = Some ''ping''
      then Inr \<lparr>msg_type = PING, msg_id = Some ''7'', msg_payload = False\<rparr>
      else Inl ''not an envelope'')"

definition sample :: "(bool, string) collaborators" where
  "sample = \<lparr>loads = sample_loads, has_subscription_operation = (\<lambda>p. p),
             on_connect = (\<lambda>p. Returns), format_error = JStr\<rparr>"

definition rejecting :: "(bool, string) collaborators" where
  "rejecting = sample\<lparr>on_connect := (\<lambda>p. Raises)\<rparr>"

definition failed_result :: "string execution_result" where
  "failed_result = \<lparr>data = JNull, errors = Some [''boom'']\<rparr>"

definition pong_result :: "string execution_result" where
  "pong_result = \<lparr>data = JDict [(''ping'', JStr ''pong'')], errors = None\<rparr>"

definition waiting_1 :: connection where
  "waiting_1 = run sample [Receive (Some ''query 1'')] new_connection"

definition streaming_1 :: connection where
  "streaming_1 =
     run sample [Receive (Some ''subscribe 1''), Engine_returns 0 Async_iterator] new_connection"

section \<open>Encoding\<close>

lemma build_message_keys:
  "map fst (build_message op_id ty payload) =
     [''type''] @ (case op_id of None \<Rightarrow> [] | Some i \<Rightarrow> [''id''])
       @ (if payload \<noteq> JNull then [''payload''] else [])"
  by (cases op_id) (simp_all add: build_message_def Let_def)

text \<open>
  C8. For every message type, optional id and optional payload, the message that is
  encoded always has the field \<open>type\<close> (holding the type's wire value), has the field
  \<open>id\<close> exactly when the id is not \<^verbatim>\<open>None\<close>, and has the field \<open>payload\<close> exactly when
  the payload is not \<^verbatim>\<open>None\<close>.
\<close>

theorem send_message_fields:
  "dict_contains (build_message op_id ty payload) ''type''
   \<and> map_of (build_message op_id ty payload) ''type'' = Some (JStr (type_value ty))
   \<and> (dict_contains (build_message op_id ty payload) ''id'' = (op_id \<noteq> None))
   \<and> (dict_contains (build_message op_id ty payload) ''payload'' = (payload \<noteq> JNull))"
  by (cases op_id) (simp_all add: build_message_def dict_contains_def Let_def)

theorem send_message_fields_witness:
  "dict_contains (build_message (Some ''1'') NEXT (JDict [])) ''type''
   \<and> dict_contains (build_message (Some ''1'') NEXT (JDict [])) ''id''
   \<and> dict_contains (build_message (Some ''1'') NEXT (JDict [])) ''payload''
   \<and> \<not> dict_contains (build_message None PONG JNull) ''id''
   \<and> \<not> dict_contains (build_message None PONG JNull) ''payload''"
  using send_message_fields [of "Some ''1''" NEXT "JDict []"]
    send_message_fields [of None PONG JNull]
  by simp

text \<open>
  C10. For every frame the transport delivers, \<open>receive\<close> returns the frame's text when
  the frame type is TEXT, raises \<open>ConnectionClosed\<close> exactly when the type is CLOSED,
  CLOSING or ERROR, and returns \<^verbatim>\<open>None\<close> for every other frame type.
\<close>

theorem receive_by_frame_type:
  "(frame_type m = TEXT \<longrightarrow> receive m = Inr (Some (frame_data m)))
   \<and> ((receive m = Inl ConnectionClosed) = (frame_type m \<in> {CLOSED, CLOSING, WS_ERROR}))
   \<and> (frame_type m \<notin> {TEXT, CLOSED, CLOSING, WS_ERROR} \<longrightarrow> receive m = Inr None)"
  by (simp add: receive_def)

theorem receive_by_frame_type_witness:
  "receive \<lparr>frame_type = TEXT, frame_data = ''{}''\<rparr> = Inr (Some ''{}'')
   \<and> receive \<lparr>frame_type = CLOSING, frame_data = ''''\<rparr> = Inl ConnectionClosed
   \<and> receive \<lparr>frame_type = BINARY, frame_data = ''xy''\<rparr> = Inr None"
  using receive_by_frame_type [of "\<lparr>frame_type = TEXT, frame_data = ''{}''\<rparr>"]
    receive_by_frame_type [of "\<lparr>frame_type = CLOSING, frame_data = ''''\<rparr>"]
    receive_by_frame_type [of "\<lparr>frame_type = BINARY, frame_data = ''xy''\<rparr>"]
  by simp

section \<open>Facts about the handlers\<close>

lemma type_value_inj: "type_value a = type_value b \<Longrightarrow> a = b"
  by (cases a; cases b) simp_all

lemma build_message_complete_eq:
  "(build_message op_id ty payload = build_message k COMPLETE JNull)
     = (op_id = k \<and> ty = COMPLETE \<and> payload = JNull)"
  by (cases op_id; cases k; cases ty)
     (auto simp add: build_message_def Let_def)

lemma send_message_is_complete:
  "(Send (JDict (build_message op_id ty payload)) = complete_message k)
     = (op_id = k \<and> ty = COMPLETE \<and> payload = JNull)"
  by (simp add: complete_message_def build_message_complete_eq)

lemma completes_send_message:
  "completes k (send_message s op_id ty payload)
     = completes k s + (if op_id = k \<and> ty = COMPLETE \<and> payload = JNull then 1 else 0)"
  by (simp add: completes_def send_message_def send_def send_message_is_complete)

lemma completes_close: "completes k (close s code) = completes k s"
  by (simp add: completes_def close_def complete_message_def)

lemma operations_send_message: "operations (send_message s op_id ty payload) = operations s"
  by (simp add: send_message_def send_def)

lemma tasks_send_message: "tasks (send_message s op_id ty payload) = tasks s"
  by (simp add: send_message_def send_def)

lemma unsubscribe_frame:
  "operations (unsubscribe s k) = operations s"
  "tasks (unsubscribe s k) = tasks s"
  "trace (unsubscribe s k) = trace s"
  by (simp_all add: unsubscribe_def split: option.splits)

lemma foldl_unsubscribe_frame:
  "operations (foldl unsubscribe s ks) = operations s
   \<and> tasks (foldl unsubscribe s ks) = tasks s
   \<and> trace (foldl unsubscribe s ks) = trace s"
  by (induction ks arbitrary: s) (simp_all add: unsubscribe_frame)

lemma on_close_frame:
  "operations (on_close s) = operations s"
  "tasks (on_close s) = tasks s"
  "trace (on_close s) = trace s"
  by (simp_all add: on_close_def foldl_unsubscribe_frame)

lemma completes_cong: "trace s = trace t \<Longrightarrow> completes k s = completes k t"
  by (simp add: completes_def)

lemma on_message_operations: "operations (on_message D s m) = operations s"
  by (simp add: on_message_def send_error_def on_connection_init_def on_subscribe_def
      on_complete_def on_ping_def operations_send_message close_def unsubscribe_frame
      split: sum.splits hook_result.splits)

lemma completes_updates:
  "completes k (s\<lparr>tasks := ts\<rparr>) = completes k s"
  "completes k (s\<lparr>operations := ops\<rparr>) = completes k s"
  "completes k (unsubscribe s k') = completes k s"
  "completes k (on_close s) = completes k s"
  by (simp_all add: completes_def unsubscribe_frame on_close_frame)

lemma on_message_completes: "completes k (on_message D s m) = completes k s"
  by (simp add: on_message_def send_error_def on_connection_init_def on_subscribe_def
      on_complete_def on_ping_def completes_send_message completes_close
      completes_updates
      split: sum.splits hook_result.splits)

lemma map_of_dict_del: "map_of (dict_del d k') k = (if k = k' then None else map_of d k)"
  by (induction d) (auto simp add: dict_del_def)

lemma map_of_dict_set: "map_of (dict_set d k' v) k = (if k = k' then Some v else map_of d k)"
  by (induction d) auto

lemma on_subscribe_result_completes:
  "completes k (on_subscribe_result D s i outcome) = completes k s"
  by (auto simp add: on_subscribe_result_def send_execution_result_def completes_send_message
      completes_updates split: task.splits engine_outcome.splits)

lemma on_subscribe_result_registered:
  "map_of (operations s) k \<noteq> None \<Longrightarrow>
   map_of (operations (on_subscribe_result D s i outcome)) k \<noteq> None"
  by (auto simp add: on_subscribe_result_def send_execution_result_def operations_send_message
      map_of_dict_set split: task.splits engine_outcome.splits)

lemma on_subscribe_value_completes:
  "completes k (on_subscribe_value D s i val) = completes k s"
  by (auto simp add: on_subscribe_value_def send_execution_result_def completes_send_message
      split: task.splits)

lemma on_subscribe_value_operations:
  "operations (on_subscribe_value D s i val) = operations s"
  by (auto simp add: on_subscribe_value_def send_execution_result_def operations_send_message
      split: task.splits)

lemma finally_completes:
  "completes k (on_subscribe_finally s k' i)
     = completes k s + unregistered_by k s (on_subscribe_finally s k' i)"
  by (auto simp add: on_subscribe_finally_def completes_send_message completes_updates
      unregistered_by_def operations_send_message map_of_dict_del)

lemma finish_completes:
  "completes k (finish s i) = completes k s + unregistered_by k s (finish s i)"
  using finally_completes [of k s _ i]
  by (auto simp add: finish_def completes_updates unregistered_by_def split: task.splits)

lemma finish_operations_cases:
  "map_of (operations (finish s i)) k = None
   \<or> map_of (operations (finish s i)) k = map_of (operations s) k"
  by (auto simp add: finish_def on_subscribe_finally_def operations_send_message map_of_dict_del
      split: task.splits)

lemma cancel_completes:
  "completes k (cancel s i) = completes k s + unregistered_by k s (cancel s i)"
  using finish_completes [of k s i]
  by (auto simp add: cancel_def completes_updates unregistered_by_def split: task.splits)

lemma cancel_operations_cases:
  "map_of (operations (cancel s i)) k = None
   \<or> map_of (operations (cancel s i)) k = map_of (operations s) k"
  using finish_operations_cases [of s i k]
  by (auto simp add: cancel_def split: task.splits)

lemma sweep_completes:
  "completes k (foldl cancel s js) = completes k s + unregistered_by k s (foldl cancel s js)
   \<and> (map_of (operations (foldl cancel s js)) k = None
      \<or> map_of (operations (foldl cancel s js)) k = map_of (operations s) k)"
proof (induction js arbitrary: s)
  case Nil
  then show ?case by (auto simp add: unregistered_by_def)
next
  case (Cons j js)
  let ?s1 = "cancel s j"
  have ih: "completes k (foldl cancel ?s1 js)
              = completes k ?s1 + unregistered_by k ?s1 (foldl cancel ?s1 js)"
    and ih2: "map_of (operations (foldl cancel ?s1 js)) k = None
      \<or> map_of (operations (foldl cancel ?s1 js)) k = map_of (operations ?s1) k"
    using Cons.IH [of ?s1] by simp_all
  have c: "completes k ?s1 = completes k s + unregistered_by k s ?s1"
    by (rule cancel_completes)
  have o: "map_of (operations ?s1) k = None \<or> map_of (operations ?s1) k = map_of (operations s) k"
    by (rule cancel_operations_cases)
  show ?case using ih ih2 c o by (auto simp add: unregistered_by_def split: if_splits)
qed

lemma handle_exit_completes:
  "completes k (handle_exit s) = completes k s + unregistered_by k s (handle_exit s)"
  using sweep_completes [of k "on_close s" "[0..<length (tasks s)]"]
  by (auto simp add: handle_exit_def completes_updates unregistered_by_def on_close_frame)

lemma step_completes:
  "completes k (step D e s) = completes k s + unregistered_by k s (step D e s)"
proof (cases e)
  case (Receive m)
  then show ?thesis
    by (auto simp add: on_message_completes unregistered_by_def on_message_operations)
next
  case (Engine_returns i outcome)
  then show ?thesis
    using on_subscribe_result_registered [of s k D i outcome]
    by (cases "map_of (operations s) k")
       (simp_all add: on_subscribe_result_completes unregistered_by_def)
next
  case (Yield i val)
  then show ?thesis
    by (auto simp add: on_subscribe_value_completes unregistered_by_def on_subscribe_value_operations)
next
  case (Finish i)
  then show ?thesis by (auto simp add: finish_completes)
next
  case Connection_closed
  then show ?thesis by (auto simp add: handle_exit_completes)
qed

lemma registry_okD:
  "registry_ok s \<Longrightarrow> map_of (operations s) k = Some i
     \<Longrightarrow> i < length (tasks s) \<and> tasks s ! i = Streaming k"
  by (auto simp add: registry_ok_def list_all_iff dest: map_of_SomeD)

lemma registry_ok_map_of:
  "registry_ok s \<Longrightarrow> (k, i) \<in> set (operations s) \<Longrightarrow> map_of (operations s) k = Some i"
  by (simp add: registry_ok_def)

lemma dict_set_keys: "set (map fst (dict_set d k v)) = insert k (set (map fst d))"
  by (induction d) auto

lemma distinct_dict_set: "distinct (map fst d) \<Longrightarrow> distinct (map fst (dict_set d k v))"
proof (induction d)
  case Nil
  then show ?case by simp
next
  case (Cons p ps)
  then show ?case using dict_set_keys [of ps k v] by auto
qed

lemma distinct_dict_del: "distinct (map fst d) \<Longrightarrow> distinct (map fst (dict_del d k))"
  by (simp add: dict_del_def distinct_map_filter)

lemma set_dict_set: "set (dict_set d k v) \<subseteq> insert (k, v) (set d)"
  by (induction d) auto

lemma set_dict_del: "set (dict_del d k) \<subseteq> set d"
  by (auto simp add: dict_del_def)

lemma live_after_update:
  assumes "list_all (\<lambda>(k, j). j < length ts \<and> ts ! j = Streaming k) ops"
    and "set ops' \<subseteq> set ops"
    and "\<And>k j. (k, j) \<in> set ops' \<Longrightarrow> j \<noteq> i"
  shows "list_all (\<lambda>(k, j). j < length (ts[i := t]) \<and> ts[i := t] ! j = Streaming k) ops'"
proof -
  have "j < length (ts[i := t]) \<and> ts[i := t] ! j = Streaming k" if "(k, j) \<in> set ops'" for k j
  proof -
    have "(k, j) \<in> set ops" using that assms(2) by blast
    then have "j < length ts \<and> ts ! j = Streaming k"
      using assms(1) by (auto simp add: list_all_iff)
    moreover have "j \<noteq> i" using that assms(3) by blast
    ultimately show ?thesis by simp
  qed
  then show ?thesis by (auto simp add: list_all_iff)
qed

lemma registry_ok_new: "registry_ok new_connection"
  by (simp add: registry_ok_def new_connection_def)

lemma on_message_tasks: "\<exists>ts. tasks (on_message D s m) = tasks s @ ts"
  by (simp add: on_message_def send_error_def on_connection_init_def on_subscribe_def
      on_complete_def on_ping_def tasks_send_message close_def unsubscribe_frame
      split: sum.splits hook_result.splits)

lemma registry_ok_on_message: "registry_ok s \<Longrightarrow> registry_ok (on_message D s m)"
proof -
  assume ok: "registry_ok s"
  obtain ts where ts: "tasks (on_message D s m) = tasks s @ ts"
    using on_message_tasks by blast
  show ?thesis using ok
    by (auto simp add: registry_ok_def on_message_operations ts list_all_iff nth_append)
qed

lemma registry_ok_on_subscribe_result:
  "registry_ok s \<Longrightarrow> registry_ok (on_subscribe_result D s i outcome)"
proof (cases "i < length (tasks s)")
  case False
  assume "registry_ok s"
  then show ?thesis using False by (simp add: on_subscribe_result_def)
next
  case True
  assume ok: "registry_ok s"
  show ?thesis
  proof (cases "tasks s ! i")
    case (Awaiting_engine op_id entry)
    have other: "\<And>k j. (k, j) \<in> set (operations s) \<Longrightarrow> j \<noteq> i"
      using ok Awaiting_engine by (auto simp add: registry_ok_def list_all_iff)
    show ?thesis
    proof (cases outcome)
      case (Execution_result r)
      have "list_all (\<lambda>(k, j). j < length ((tasks s)[i := Done])
              \<and> (tasks s)[i := Done] ! j = Streaming k) (operations s)"
        using ok other by (intro live_after_update [where ops = "operations s"])
          (simp_all add: registry_ok_def)
      then show ?thesis using ok True Awaiting_engine Execution_result
        by (simp add: on_subscribe_result_def registry_ok_def
            send_execution_result_def operations_send_message)
    next
      case Async_iterator
      let ?ts = "(tasks s)[i := Streaming op_id]"
      have "j < length ?ts \<and> ?ts ! j = Streaming k"
        if "(k, j) \<in> set (dict_set (operations s) op_id i)" for k j
      proof (cases "(k, j) = (op_id, i)")
        case True
        then show ?thesis using \<open>i < length (tasks s)\<close> by simp
      next
        case False
        then have mem: "(k, j) \<in> set (operations s)"
          using that set_dict_set [of "operations s" op_id i] by blast
        then have "j < length (tasks s) \<and> tasks s ! j = Streaming k"
          using ok by (auto simp add: registry_ok_def list_all_iff)
        moreover have "j \<noteq> i" using mem other by blast
        ultimately show ?thesis by simp
      qed
      then have "list_all (\<lambda>(k, j). j < length ?ts \<and> ?ts ! j = Streaming k)
                   (dict_set (operations s) op_id i)"
        by (auto simp add: list_all_iff)
      then show ?thesis using ok True Awaiting_engine Async_iterator
        by (simp add: on_subscribe_result_def registry_ok_def distinct_dict_set)
    next
      case Engine_raised
      have "list_all (\<lambda>(k, j). j < length ((tasks s)[i := Done])
              \<and> (tasks s)[i := Done] ! j = Streaming k) (operations s)"
        using ok other by (intro live_after_update [where ops = "operations s"])
          (simp_all add: registry_ok_def)
      then show ?thesis using ok True Awaiting_engine Engine_raised
        by (simp add: on_subscribe_result_def registry_ok_def)
    qed
  next
    case (Streaming op_id)
    then show ?thesis using ok by (simp add: on_subscribe_result_def)
  next
    case Done
    then show ?thesis using ok by (simp add: on_subscribe_result_def)
  qed
qed

lemma registry_ok_on_subscribe_value:
  "registry_ok s \<Longrightarrow> registry_ok (on_subscribe_value D s i val)"
  by (simp add: on_subscribe_value_def registry_ok_def send_execution_result_def
      operations_send_message tasks_send_message split: task.splits)

lemma registry_ok_finish: "registry_ok s \<Longrightarrow> registry_ok (finish s i)"
proof (cases "i < length (tasks s)")
  case False
  assume "registry_ok s"
  then show ?thesis using False by (simp add: finish_def)
next
  case True
  assume ok: "registry_ok s"
  show ?thesis
  proof (cases "tasks s ! i")
    case (Streaming op_id)
    have only: "\<And>k. (k, i) \<in> set (operations s) \<Longrightarrow> k = op_id"
      using ok Streaming by (auto simp add: registry_ok_def list_all_iff)
    show ?thesis
    proof (cases "map_of (operations s) op_id = Some i")
      case stored: True
      have "\<And>k j. (k, j) \<in> set (dict_del (operations s) op_id) \<Longrightarrow> j \<noteq> i"
        using only by (auto simp add: dict_del_def)
      then have "list_all (\<lambda>(k, j). j < length ((tasks s)[i := Done])
              \<and> (tasks s)[i := Done] ! j = Streaming k) (dict_del (operations s) op_id)"
        using ok set_dict_del [of "operations s" op_id]
        by (intro live_after_update [where ops = "operations s"])
          (simp_all add: registry_ok_def)
      then show ?thesis using ok True Streaming stored
        by (simp add: finish_def on_subscribe_finally_def registry_ok_def
            operations_send_message tasks_send_message distinct_dict_del)
    next
      case replaced: False
      have "\<And>k j. (k, j) \<in> set (operations s) \<Longrightarrow> j \<noteq> i"
        using only replaced registry_ok_map_of [OF ok] by blast
      then have "list_all (\<lambda>(k, j). j < length ((tasks s)[i := Done])
              \<and> (tasks s)[i := Done] ! j = Streaming k) (operations s)"
        using ok by (intro live_after_update [where ops = "operations s"])
          (simp_all add: registry_ok_def)
      then show ?thesis using ok True Streaming replaced
        by (simp add: finish_def on_subscribe_finally_def registry_ok_def)
    qed
  next
    case (Awaiting_engine op_id entry)
    then show ?thesis using ok by (simp add: finish_def)
  next
    case Done
    then show ?thesis using ok by (simp add: finish_def)
  qed
qed

lemma registry_ok_cancel: "registry_ok s \<Longrightarrow> registry_ok (cancel s i)"
proof (cases "i < length (tasks s)")
  case False
  assume "registry_ok s"
  then show ?thesis using False by (simp add: cancel_def)
next
  case True
  assume ok: "registry_ok s"
  show ?thesis
  proof (cases "tasks s ! i")
    case (Streaming op_id)
    then show ?thesis using ok True registry_ok_finish [of s i] by (simp add: cancel_def)
  next
    case (Awaiting_engine op_id entry)
    have "\<And>k j. (k, j) \<in> set (operations s) \<Longrightarrow> j \<noteq> i"
      using ok Awaiting_engine by (auto simp add: registry_ok_def list_all_iff)
    then have "list_all (\<lambda>(k, j). j < length ((tasks s)[i := Done])
              \<and> (tasks s)[i := Done] ! j = Streaming k) (operations s)"
      using ok by (intro live_after_update [where ops = "operations s"])
        (simp_all add: registry_ok_def)
    then show ?thesis using ok True Awaiting_engine
      by (simp add: cancel_def registry_ok_def)
  next
    case Done
    then show ?thesis using ok by (simp add: cancel_def)
  qed
qed

lemma registry_ok_sweep: "registry_ok s \<Longrightarrow> registry_ok (foldl cancel s js)"
  by (induction js arbitrary: s) (simp_all add: registry_ok_cancel)

lemma registry_ok_on_close: "registry_ok s \<Longrightarrow> registry_ok (on_close s)"
  by (simp add: registry_ok_def on_close_frame)

lemma registry_ok_step: "registry_ok s \<Longrightarrow> registry_ok (step D e s)"
  by (cases e)
     (simp_all add: registry_ok_on_message registry_ok_on_subscribe_result
       registry_ok_on_subscribe_value registry_ok_finish handle_exit_def
       registry_ok_sweep registry_ok_on_close)

lemma registry_ok_run: "registry_ok s \<Longrightarrow> registry_ok (run D es s)"
  by (induction es arbitrary: s) (simp_all add: registry_ok_step)

lemma finish_stored:
  "i < length (tasks s) \<Longrightarrow> tasks s ! i = Streaming k \<Longrightarrow> map_of (operations s) k = Some i
   \<Longrightarrow> finish s i = s\<lparr>operations := dict_del (operations s) k,
                         trace := trace s @ [complete_message k],
                         tasks := (tasks s)[i := Done]\<rparr>"
  by (simp add: finish_def on_subscribe_finally_def send_message_def send_def
      complete_message_def)

lemma finish_replaced:
  "i < length (tasks s) \<Longrightarrow> tasks s ! i = Streaming k \<Longrightarrow> map_of (operations s) k \<noteq> Some i
   \<Longrightarrow> finish s i = s\<lparr>tasks := (tasks s)[i := Done]\<rparr>"
  by (simp add: finish_def on_subscribe_finally_def)

lemma finish_unregisters:
  "i < length (tasks s) \<Longrightarrow> tasks s ! i = Streaming k \<Longrightarrow> map_of (operations s) k = Some i
   \<Longrightarrow> map_of (operations (finish s i)) k = None"
  by (simp add: finish_stored map_of_dict_del)

lemma cancel_tasks: "tasks (cancel s j) = tasks s \<or> tasks (cancel s j) = (tasks s)[j := Done]"
  by (auto simp add: cancel_def finish_def on_subscribe_finally_def tasks_send_message
      split: task.splits)

lemma cancel_unregistered_stays:
  "map_of (operations s) k = None \<Longrightarrow> map_of (operations (cancel s j)) k = None"
  using cancel_operations_cases [of s j k] by auto

lemma sweep_unregistered_stays:
  "map_of (operations s) k = None \<Longrightarrow> map_of (operations (foldl cancel s js)) k = None"
  by (induction js arbitrary: s) (simp_all add: cancel_unregistered_stays)

lemma sweep_unregisters:
  "i \<in> set js \<Longrightarrow> i < length (tasks s) \<Longrightarrow> tasks s ! i = Streaming k
   \<Longrightarrow> map_of (operations s) k = Some i
   \<Longrightarrow> map_of (operations (foldl cancel s js)) k = None"
proof (induction js arbitrary: s)
  case Nil
  then show ?case by simp
next
  case (Cons j js)
  show ?case
  proof (cases "j = i")
    case True
    have "cancel s i = finish s i" using Cons.prems by (simp add: cancel_def)
    then have "map_of (operations (cancel s j)) k = None"
      using True Cons.prems finish_unregisters [of i s k] by simp
    then show ?thesis by (simp add: sweep_unregistered_stays)
  next
    case False
    then have mem: "i \<in> set js" using Cons.prems by simp
    have len: "i < length (tasks (cancel s j))"
      using cancel_tasks [of s j] Cons.prems by auto
    have nth: "tasks (cancel s j) ! i = Streaming k"
      using cancel_tasks [of s j] Cons.prems False by auto
    show ?thesis
    proof (cases "map_of (operations (cancel s j)) k = None")
      case True
      then show ?thesis by (simp add: sweep_unregistered_stays)
    next
      case False
      then have "map_of (operations (cancel s j)) k = Some i"
        using cancel_operations_cases [of s j k] Cons.prems by auto
      then show ?thesis using Cons.IH [OF mem len nth] by simp
    qed
  qed
qed

lemma handle_exit_unregisters:
  "i < length (tasks s) \<Longrightarrow> tasks s ! i = Streaming k \<Longrightarrow> map_of (operations s) k = Some i
   \<Longrightarrow> map_of (operations (handle_exit s)) k = None"
  using sweep_unregisters [of i "[0..<length (tasks s)]" "on_close s" k]
  by (simp add: handle_exit_def on_close_frame)

lemma unsubscribe_stored:
  "map_of (operations s) k = Some i
   \<Longrightarrow> unsubscribe s k = s\<lparr>aclosed := aclosed s @ [i], completed := completed s @ [k]\<rparr>"
  by (simp add: unsubscribe_def)

lemma unsubscribe_absent: "map_of (operations s) k = None \<Longrightarrow> unsubscribe s k = s"
  by (simp add: unsubscribe_def)

lemma receive_complete:
  "loads D m = Inr l \<Longrightarrow> msg_type l = COMPLETE
   \<Longrightarrow> step D (Receive m) s = unsubscribe s (Some (id_or_empty (msg_id l)))"
  by (simp add: on_message_def on_complete_def)

lemma streaming_1_eq:
  "streaming_1 = \<lparr>operations = [(Some ''1'', 0)], tasks = [Streaming (Some ''1'')],
                  trace = [], aclosed = [], completed = []\<rparr>"
  by (simp add: streaming_1_def sample_def sample_loads_def new_connection_def on_message_def
      on_subscribe_def dict_contains_def on_subscribe_result_def)

lemma has_next_field:
  "map_of (execution_payload fmt r has_next) ''hasNext''
     = (if truthy (data r) then Some (JBool has_next) else None)"
  by (simp add: execution_payload_def Let_def split: option.splits)

lemma send_execution_result_eq:
  "send_execution_result fmt s k r has_next = s\<lparr>trace := trace s @ [next_message fmt k r has_next]\<rparr>"
  by (simp add: send_execution_result_def send_message_def send_def next_message_def)

lemma yield_streaming:
  "i < length (tasks s) \<Longrightarrow> tasks s ! i = Streaming k
   \<Longrightarrow> step D (Yield i v) s = s\<lparr>trace := trace s @ [next_message (format_error D) k v True]\<rparr>"
  by (simp add: on_subscribe_value_def send_execution_result_eq)

lemma yields_in_order:
  "i < length (tasks s) \<Longrightarrow> tasks s ! i = Streaming k
   \<Longrightarrow> run D (map (Yield i) vs) s
       = s\<lparr>trace := trace s @ map (\<lambda>v. next_message (format_error D) k v True) vs\<rparr>"
proof (induction vs arbitrary: s)
  case Nil
  then show ?case by simp
next
  case (Cons v vs)
  let ?s1 = "s\<lparr>trace := trace s @ [next_message (format_error D) k v True]\<rparr>"
  have s1: "step D (Yield i v) s = ?s1" using Cons.prems by (rule yield_streaming)
  have "run D (map (Yield i) vs) ?s1
          = ?s1\<lparr>trace := trace ?s1 @ map (\<lambda>v. next_message (format_error D) k v True) vs\<rparr>"
    using Cons.prems by (intro Cons.IH) simp_all
  then show ?case using s1 by simp
qed

lemma on_message_trace: "\<exists>out. trace (on_message D s m) = trace s @ out"
  by (simp add: on_message_def send_error_def on_connection_init_def on_subscribe_def
      on_complete_def on_ping_def send_message_def send_def close_def unsubscribe_frame
      split: sum.splits hook_result.splits)

lemma on_subscribe_result_trace: "\<exists>out. trace (on_subscribe_result D s i outcome) = trace s @ out"
  by (simp add: on_subscribe_result_def send_execution_result_eq
      split: task.splits engine_outcome.splits)

lemma on_subscribe_value_trace: "\<exists>out. trace (on_subscribe_value D s i v) = trace s @ out"
  by (simp add: on_subscribe_value_def send_execution_result_eq split: task.splits)

lemma finish_trace: "\<exists>out. trace (finish s i) = trace s @ out"
  by (simp add: finish_def on_subscribe_finally_def send_message_def send_def
      split: task.splits)

lemma cancel_trace: "\<exists>out. trace (cancel s i) = trace s @ out"
  using finish_trace [of s i] by (simp add: cancel_def split: task.splits)

lemma sweep_trace: "\<exists>out. trace (foldl cancel s js) = trace s @ out"
proof (induction js arbitrary: s)
  case Nil
  then show ?case by simp
next
  case (Cons j js)
  obtain o1 where o1: "trace (cancel s j) = trace s @ o1" using cancel_trace by blast
  obtain o2 where "trace (foldl cancel (cancel s j) js) = trace (cancel s j) @ o2"
    using Cons.IH by blast
  then show ?case using o1 by simp
qed

lemma step_trace: "\<exists>out. trace (step D e s) = trace s @ out"
proof (cases e)
  case Connection_closed
  then show ?thesis using sweep_trace [of "on_close s" "[0..<length (tasks s)]"]
    by (simp add: handle_exit_def on_close_frame)
qed (simp_all add: on_message_trace on_subscribe_result_trace on_subscribe_value_trace
      finish_trace)

lemma run_trace: "\<exists>out. trace (run D es s) = trace s @ out"
proof (induction es arbitrary: s)
  case Nil
  then show ?case by simp
next
  case (Cons e es)
  obtain o1 where o1: "trace (step D e s) = trace s @ o1" using step_trace by blast
  obtain o2 where "trace (run D es (step D e s)) = trace (step D e s) @ o2"
    using Cons.IH by blast
  then show ?case using o1 by simp
qed

lemma streaming_persists:
  assumes "i < length (tasks s)" "tasks s ! i = Streaming k"
    and "e \<noteq> Finish i" "e \<noteq> Connection_closed"
  shows "i < length (tasks (step D e s)) \<and> tasks (step D e s) ! i = Streaming k"
proof (cases e)
  case (Receive m)
  obtain ts where "tasks (on_message D s m) = tasks s @ ts" using on_message_tasks by blast
  then show ?thesis using Receive assms by (simp add: nth_append)
next
  case (Engine_returns j outcome)
  then show ?thesis using assms
    by (cases "j = i")
       (auto simp add: on_subscribe_result_def send_execution_result_eq
         split: task.splits engine_outcome.splits)
next
  case (Yield j v)
  then show ?thesis using assms
    by (auto simp add: on_subscribe_value_def send_execution_result_eq split: task.splits)
next
  case (Finish j)
  then have "j \<noteq> i" using assms by simp
  then show ?thesis using Finish assms
    by (auto simp add: finish_def on_subscribe_finally_def tasks_send_message
        split: task.splits)
next
  case Connection_closed
  then show ?thesis using assms by simp
qed

lemma yields_subseq:
  assumes "i < length (tasks s)" "tasks s ! i = Streaming k"
    and "Finish i \<notin> set es" "Connection_closed \<notin> set es"
  shows "subseq (map (\<lambda>v. next_message (format_error D) k v True) (yields_of i es))
           (drop (length (trace s)) (trace (run D es s)))"
  using assms
proof (induction es arbitrary: s)
  case Nil
  then show ?case by simp
next
  case (Cons e es)
  let ?f = "\<lambda>v. next_message (format_error D) k v True"
  let ?s1 = "step D e s"
  have e: "e \<noteq> Finish i" "e \<noteq> Connection_closed" using Cons.prems by auto
  have live1: "i < length (tasks ?s1)" "tasks ?s1 ! i = Streaming k"
    using streaming_persists [OF Cons.prems(1,2) e, where D = D] by simp_all
  have rest: "Finish i \<notin> set es" "Connection_closed \<notin> set es" using Cons.prems by auto
  have ih: "subseq (map ?f (yields_of i es)) (drop (length (trace ?s1)) (trace (run D es ?s1)))"
    using Cons.IH [OF live1 rest] .
  obtain o1 where o1: "trace ?s1 = trace s @ o1" using step_trace by blast
  obtain o2 where o2: "trace (run D es ?s1) = trace ?s1 @ o2" using run_trace by blast
  have ih': "subseq (map ?f (yields_of i es)) o2" using ih o2 by simp
  have whole: "drop (length (trace s)) (trace (run D (e # es) s)) = o1 @ o2"
    using o1 o2 by simp
  show ?case
  proof (cases "\<exists>v. e = Yield i v")
    case True
    then obtain v where v: "e = Yield i v" by blast
    have "?s1 = s\<lparr>trace := trace s @ [?f v]\<rparr>"
      using v yield_streaming [OF Cons.prems(1,2)] by simp
    then have "o1 = [?f v]" using o1 by simp
    then show ?thesis using whole ih' v by simp
  next
    case False
    then have "yields_of i (e # es) = yields_of i es"
      by (cases e) auto
    moreover have "subseq (map ?f (yields_of i es)) (o1 @ o2)"
      using ih' by (rule list_emb_append2)
    ultimately show ?thesis using whole by simp
  qed
qed

lemma done_persists:
  assumes "i < length (tasks s)" "tasks s ! i = Done"
  shows "i < length (tasks (step D e s)) \<and> tasks (step D e s) ! i = Done"
proof (cases e)
  case (Receive m)
  obtain ts where "tasks (on_message D s m) = tasks s @ ts" using on_message_tasks by blast
  then show ?thesis using Receive assms by (simp add: nth_append)
next
  case (Engine_returns j outcome)
  then show ?thesis using assms
    by (cases "j = i")
       (auto simp add: on_subscribe_result_def send_execution_result_eq
         split: task.splits engine_outcome.splits)
next
  case (Yield j v)
  then show ?thesis using assms
    by (auto simp add: on_subscribe_value_def send_execution_result_eq split: task.splits)
next
  case (Finish j)
  then show ?thesis using assms
    by (cases "j = i")
       (auto simp add: finish_def on_subscribe_finally_def tasks_send_message
         split: task.splits)
next
  case Connection_closed
  have "i < length (tasks (foldl cancel t js)) \<and> tasks (foldl cancel t js) ! i = Done"
    if "i < length (tasks t)" "tasks t ! i = Done" for t js
    using that
  proof (induction js arbitrary: t)
    case Nil
    then show ?case by simp
  next
    case (Cons j js)
    have "i < length (tasks (cancel t j)) \<and> tasks (cancel t j) ! i = Done"
      using cancel_tasks [of t j] Cons.prems by (cases "j = i") auto
    then show ?case using Cons.IH by simp
  qed
  then show ?thesis using Connection_closed assms by (simp add: handle_exit_def on_close_frame)
qed

lemma done_forever:
  "i < length (tasks s) \<Longrightarrow> tasks s ! i = Done
   \<Longrightarrow> i < length (tasks (run D es s)) \<and> tasks (run D es s) ! i = Done"
proof (induction es arbitrary: s)
  case Nil
  then show ?case by simp
next
  case (Cons e es)
  then show ?case using done_persists [of i s D e] by simp
qed

lemma sample_loads_simps:
  "loads sample (Some ''init'') = Inr \<lparr>msg_type = CONNECTION_INIT, msg_id = None, msg_payload = False\<rparr>"
  "loads rejecting (Some ''init'') = Inr \<lparr>msg_type = CONNECTION_INIT, msg_id = None, msg_payload = False\<rparr>"
  "loads sample (Some ''subscribe 1'') = Inr \<lparr>msg_type = SUBSCRIBE, msg_id = Some ''1'', msg_payload = True\<rparr>"
  "loads sample (Some ''query 1'') = Inr \<lparr>msg_type = SUBSCRIBE, msg_id = Some ''1'', msg_payload = False\<rparr>"
  "loads sample (Some ''complete 1'') = Inr \<lparr>msg_type = COMPLETE, msg_id = Some ''1'', msg_payload = False\<rparr>"
  "loads sample (Some ''not json'') = Inl ''not an envelope''"
  by (simp_all add: sample_def rejecting_def sample_loads_def)

lemma waiting_1_eq:
  "waiting_1 = \<lparr>operations = [], tasks = [Awaiting_engine (Some ''1'') Execute_entry],
                trace = [], aclosed = [], completed = []\<rparr>"
  by (simp add: waiting_1_def sample_def sample_loads_def new_connection_def on_message_def
      on_subscribe_def dict_contains_def)

section \<open>Handshake and decoding\<close>

text \<open>
  C3. On a ConnectionInit message the server calls the hook \<^verbatim>\<open>on_connect\<close> with the
  payload of the message. If the hook raises, the connection is closed with the
  internal-error code and nothing is sent (no ConnectionAck); if it returns, the server
  sends one message, a ConnectionAck with no id and no payload. Nothing else changes.
\<close>

theorem connection_init_reply:
  "loads D m = Inr l \<Longrightarrow> msg_type l = CONNECTION_INIT \<Longrightarrow>
   step D (Receive m) s =
     (case on_connect D (msg_payload l) of
        Raises \<Rightarrow> s\<lparr>trace := trace s @ [Close WS_INTERNAL_ERROR]\<rparr>
      | Returns \<Rightarrow> s\<lparr>trace := trace s @ [Send (JDict [(''type'', JStr ''connection_ack'')])]\<rparr>)"
  by (simp add: on_message_def on_connection_init_def send_message_def send_def close_def
      build_message_def split: hook_result.splits)

theorem connection_init_reply_witness:
  "step sample (Receive (Some ''init'')) new_connection
     = new_connection\<lparr>trace := [Send (JDict [(''type'', JStr ''connection_ack'')])]\<rparr>
   \<and> step rejecting (Receive (Some ''init'')) new_connection
     = new_connection\<lparr>trace := [Close WS_INTERNAL_ERROR]\<rparr>"
  using connection_init_reply [of sample "Some ''init''" _ new_connection]
    connection_init_reply [of rejecting "Some ''init''" _ new_connection]
  by (simp add: sample_loads_simps) (simp add: sample_def rejecting_def new_connection_def)

text \<open>
  C4. For every received message that fails decoding, the server sends one Error
  message with no id field, whose payload carries the text of the failure; no close is
  issued and nothing else of the connection changes (the message is not processed
  further).
\<close>

theorem decode_failure_reply:
  "loads D m = Inl e \<Longrightarrow>
   step D (Receive m) s =
     s\<lparr>trace := trace s @
        [Send (JDict [(''type'', JStr ''error''),
                      (''payload'', JDict [(''message'', JStr e)])])]\<rparr>"
  by (simp add: on_message_def send_error_def send_message_def send_def build_message_def)

theorem decode_failure_reply_witness:
  "step sample (Receive (Some ''not json'')) new_connection =
     new_connection\<lparr>trace :=
        [Send (JDict [(''type'', JStr ''error''),
                      (''payload'', JDict [(''message'', JStr ''not an envelope'')])])]\<rparr>"
  using decode_failure_reply [of sample "Some ''not json''" "''not an envelope''" new_connection]
  by (simp add: sample_loads_simps) (simp add: new_connection_def)

section \<open>The registry\<close>

text \<open>
  C2. The claim fails on the code. \<^verbatim>\<open>on_subscribe\<close> looks the id up in the registry
  (line 200, under the comment "If we already have a sub with this id, close the socket")
  before it awaits the engine, and stores the iterator after the engine has answered
  (line 226) without looking again. Two Subscribe messages with the id 1 that are both
  received before the engine has answered the first both pass the check, so two engine
  calls are waiting. When the engine answers the first, its iterator is stored under the
  id; when it answers the second, the second iterator replaces the first in the
  registry. Both tasks are then streaming under the one id, and nothing was sent to the
  connection: no close with the duplicate-id code.
\<close>

theorem duplicate_subscribe_race:
  "run sample [Receive (Some ''subscribe 1''), Receive (Some ''subscribe 1'')] new_connection
     = \<lparr>operations = [],
        tasks = [Awaiting_engine (Some ''1'') Subscribe_entry,
                 Awaiting_engine (Some ''1'') Subscribe_entry],
        trace = [], aclosed = [], completed = []\<rparr>
   \<and> run sample [Receive (Some ''subscribe 1''), Receive (Some ''subscribe 1''),
                 Engine_returns 0 Async_iterator] new_connection
     = \<lparr>operations = [(Some ''1'', 0)],
        tasks = [Streaming (Some ''1''), Awaiting_engine (Some ''1'') Subscribe_entry],
        trace = [], aclosed = [], completed = []\<rparr>
   \<and> run sample [Receive (Some ''subscribe 1''), Receive (Some ''subscribe 1''),
                 Engine_returns 0 Async_iterator, Engine_returns 1 Async_iterator]
        new_connection
     = \<lparr>operations = [(Some ''1'', 1)],
        tasks = [Streaming (Some ''1''), Streaming (Some ''1'')],
        trace = [], aclosed = [], completed = []\<rparr>"
  by (simp add: sample_def sample_loads_def new_connection_def on_message_def
      on_subscribe_def dict_contains_def on_subscribe_result_def)

section \<open>Completion\<close>

text \<open>
  C1. Let \<open>s\<close> be any state a connection can reach and let the id \<open>k\<close> be registered in
  \<open>s\<close>, with the iterator of task \<open>i\<close>. Then task \<open>i\<close> is in its loop under \<open>k\<close>,
  and exactly one Complete message for \<open>k\<close> is sent when the operation ends, however it
  ends:
  \<^item> the loop ends by itself (natural exhaustion): one more Complete for \<open>k\<close>, and the id is
    removed;
  \<^item> the client sends Complete for \<open>k\<close>: the iterator is closed and no Complete is sent
    yet; when the loop then ends, one more Complete for \<open>k\<close>, and the id is removed;
  \<^item> the connection closes: the teardown sends one more Complete for \<open>k\<close> and removes the
    id.

  No other Complete for \<open>k\<close> is sent: any event sends a Complete for a registered id
  exactly when it removes the id (once), and none for an id that is not registered.
\<close>

theorem complete_sent_exactly_once:
  assumes reach: "s = run D es new_connection"
    and reg: "map_of (operations s) k = Some i"
  shows "(i < length (tasks s) \<and> tasks s ! i = Streaming k)
    \<and> (completes k (step D (Finish i) s) = completes k s + 1
       \<and> map_of (operations (step D (Finish i) s)) k = None)
    \<and> (\<forall>m l. loads D m = Inr l \<and> msg_type l = COMPLETE \<and> Some (id_or_empty (msg_id l)) = k
         \<longrightarrow> i \<in> set (aclosed (step D (Receive m) s))
           \<and> completes k (step D (Receive m) s) = completes k s
           \<and> completes k (step D (Finish i) (step D (Receive m) s)) = completes k s + 1
           \<and> map_of (operations (step D (Finish i) (step D (Receive m) s))) k = None)
    \<and> (completes k (step D Connection_closed s) = completes k s + 1
       \<and> map_of (operations (step D Connection_closed s)) k = None)
    \<and> (\<forall>e. completes k (step D e s)
            = completes k s + (if map_of (operations (step D e s)) k = None then 1 else 0))
    \<and> (\<forall>e t. map_of (operations t) k = None \<longrightarrow> completes k (step D e t) = completes k t)"
proof -
  have ok: "registry_ok s" using reach registry_ok_run [OF registry_ok_new] by simp
  have live: "i < length (tasks s) \<and> tasks s ! i = Streaming k"
    using registry_okD [OF ok reg] .
  have acc: "completes k (step D e t) = completes k t + unregistered_by k t (step D e t)" for e t
    by (rule step_completes)
  have natural: "map_of (operations (step D (Finish i) s)) k = None"
    using live reg by (simp add: finish_unregisters)
  have closing: "map_of (operations (step D Connection_closed s)) k = None"
    using live reg handle_exit_unregisters [of i s k] by simp
  have client: "i \<in> set (aclosed (step D (Receive m) s))
           \<and> completes k (step D (Receive m) s) = completes k s
           \<and> completes k (step D (Finish i) (step D (Receive m) s)) = completes k s + 1
           \<and> map_of (operations (step D (Finish i) (step D (Receive m) s))) k = None"
    if "loads D m = Inr l" "msg_type l = COMPLETE" "Some (id_or_empty (msg_id l)) = k" for m l
  proof -
    have eq: "step D (Receive m) s
                = s\<lparr>aclosed := aclosed s @ [i], completed := completed s @ [k]\<rparr>"
      using that reg receive_complete [of D m l s] by (simp add: unsubscribe_stored)
    let ?s1 = "step D (Receive m) s"
    have reg1: "map_of (operations ?s1) k = Some i" using eq reg by simp
    have live1: "i < length (tasks ?s1) \<and> tasks ?s1 ! i = Streaming k" using eq live by simp
    have un1: "map_of (operations (step D (Finish i) ?s1)) k = None"
      using live1 reg1 by (simp add: finish_unregisters)
    have c1: "completes k ?s1 = completes k s" using eq by (simp add: completes_def)
    have "completes k (step D (Finish i) ?s1) = completes k ?s1 + 1"
      using acc [of "Finish i" ?s1] reg1 un1 by (simp add: unregistered_by_def)
    then show ?thesis using eq un1 c1 by simp
  qed
  show ?thesis
    using live natural closing client acc [of "Finish i" s] acc [of Connection_closed s] reg
    by (auto simp add: unregistered_by_def acc)
qed

theorem complete_sent_exactly_once_witness:
  "tasks streaming_1 ! 0 = Streaming (Some ''1'')
   \<and> completes (Some ''1'') (step sample (Finish 0) streaming_1) = 1
   \<and> completes (Some ''1'')
        (step sample (Finish 0) (step sample (Receive (Some ''complete 1'')) streaming_1)) = 1
   \<and> completes (Some ''1'') (step sample Connection_closed streaming_1) = 1"
proof -
  have reach: "streaming_1
      = run sample [Receive (Some ''subscribe 1''), Engine_returns 0 Async_iterator] new_connection"
    by (simp add: streaming_1_def)
  have reg: "map_of (operations streaming_1) (Some ''1'') = Some 0"
    by (simp add: streaming_1_eq)
  have zero: "completes (Some ''1'') streaming_1 = 0"
    by (simp add: streaming_1_eq completes_def)
  have dec: "loads sample (Some ''complete 1'')
      = Inr \<lparr>msg_type = COMPLETE, msg_id = Some ''1'', msg_payload = False\<rparr>
     \<and> msg_type \<lparr>msg_type = COMPLETE, msg_id = Some ''1'', msg_payload = False\<rparr> = COMPLETE
     \<and> Some (id_or_empty (msg_id \<lparr>msg_type = COMPLETE, msg_id = Some ''1'', msg_payload = False\<rparr>))
         = Some ''1''"
    by (simp add: sample_loads_simps id_or_empty_def)
  note th = complete_sent_exactly_once [OF reach reg]
  have live: "tasks streaming_1 ! 0 = Streaming (Some ''1'')" using th by blast
  have natural: "completes (Some ''1'') (step sample (Finish 0) streaming_1)
                   = completes (Some ''1'') streaming_1 + 1"
    using th by blast
  have client: "completes (Some ''1'')
        (step sample (Finish 0) (step sample (Receive (Some ''complete 1'')) streaming_1))
                   = completes (Some ''1'') streaming_1 + 1"
    using th dec by blast
  have closing: "completes (Some ''1'') (step sample Connection_closed streaming_1)
                   = completes (Some ''1'') streaming_1 + 1"
    using th by blast
  show ?thesis using live natural client closing zero by simp
qed

text \<open>
  C6 (as amended). When the loop of a streaming task ends, the \<^verbatim>\<open>finally\<close> block is
  guarded by the registry: if the iterator stored under the id is the one of this task,
  the entry is removed and one Complete message is sent, and nothing else changes (the
  iterator is not closed, \<^verbatim>\<open>on_operation_complete\<close> is not called); if another iterator or
  none is stored there, nothing is removed and nothing is sent. Explicit unsubscription
  closes the stored iterator and calls \<^verbatim>\<open>on_operation_complete\<close> once, leaves the
  registry as it is, and does nothing for an id that is absent; the loop of the
  unsubscribed task then ends through the same guarded block.
\<close>

theorem natural_exhaustion_removal:
  assumes "i < length (tasks s)" and "tasks s ! i = Streaming k"
  shows "(map_of (operations s) k = Some i \<longrightarrow>
            step D (Finish i) s
              = s\<lparr>operations := dict_del (operations s) k,
                  trace := trace s @ [complete_message k],
                  tasks := (tasks s)[i := Done]\<rparr>
            \<and> map_of (operations (step D (Finish i) s)) k = None
            \<and> unsubscribe s k
              = s\<lparr>aclosed := aclosed s @ [i], completed := completed s @ [k]\<rparr>
            \<and> step D (Finish i) (unsubscribe s k)
              = (step D (Finish i) s)
                  \<lparr>aclosed := aclosed s @ [i], completed := completed s @ [k]\<rparr>)
    \<and> (map_of (operations s) k \<noteq> Some i \<longrightarrow>
            step D (Finish i) s = s\<lparr>tasks := (tasks s)[i := Done]\<rparr>)
    \<and> (map_of (operations s) k = None \<longrightarrow> unsubscribe s k = s)"
proof -
  have stored: "step D (Finish i) (unsubscribe s k)
              = (step D (Finish i) s)
                  \<lparr>aclosed := aclosed s @ [i], completed := completed s @ [k]\<rparr>"
    if reg: "map_of (operations s) k = Some i"
  proof -
    let ?u = "s\<lparr>aclosed := aclosed s @ [i], completed := completed s @ [k]\<rparr>"
    have "finish ?u i = ?u\<lparr>operations := dict_del (operations ?u) k,
                         trace := trace ?u @ [complete_message k],
                         tasks := (tasks ?u)[i := Done]\<rparr>"
      using assms reg by (intro finish_stored) simp_all
    then show ?thesis using assms reg
      by (simp add: unsubscribe_stored finish_stored)
  qed
  show ?thesis using assms stored
    by (simp add: finish_stored finish_replaced unsubscribe_stored unsubscribe_absent
        map_of_dict_del)
qed

theorem natural_exhaustion_removal_witness:
  "step sample (Finish 0) streaming_1
     = \<lparr>operations = [], tasks = [Done],
        trace = [Send (JDict [(''type'', JStr ''complete''), (''id'', JStr ''1'')])],
        aclosed = [], completed = []\<rparr>
   \<and> step sample (Finish 0) (step sample (Finish 0) streaming_1)
     = step sample (Finish 0) streaming_1"
proof -
  have a: "0 < length (tasks streaming_1)" by (simp add: streaming_1_eq)
  have b: "tasks streaming_1 ! 0 = Streaming (Some ''1'')" by (simp add: streaming_1_eq)
  have c: "map_of (operations streaming_1) (Some ''1'') = Some 0" by (simp add: streaming_1_eq)
  have "step sample (Finish 0) streaming_1
          = streaming_1\<lparr>operations := dict_del (operations streaming_1) (Some ''1''),
                        trace := trace streaming_1 @ [complete_message (Some ''1'')],
                        tasks := (tasks streaming_1)[0 := Done]\<rparr>"
    using natural_exhaustion_removal [OF a b, of sample] c by blast
  then have first: "step sample (Finish 0) streaming_1
     = \<lparr>operations = [], tasks = [Done],
        trace = [Send (JDict [(''type'', JStr ''complete''), (''id'', JStr ''1'')])],
        aclosed = [], completed = []\<rparr>"
    by (simp add: streaming_1_eq dict_del_def complete_message_def build_message_def)
  show ?thesis using first by (simp add: finish_def)
qed

text \<open>
  C6 as stated fails: natural exhaustion does not perform what explicit unsubscription
  performs. For the subscription streaming under the id 1, natural exhaustion closes no
  iterator and never calls the completion hook, while unsubscribing closes the iterator
  and calls the hook once; and \<^verbatim>\<open>unsubscribe\<close> itself leaves the entry in the registry.
\<close>

theorem natural_exhaustion_skips_hook_counterexample:
  "aclosed (step sample (Finish 0) streaming_1) = []
   \<and> completed (step sample (Finish 0) streaming_1) = []
   \<and> aclosed (step sample (Finish 0) (unsubscribe streaming_1 (Some ''1''))) = [0]
   \<and> completed (step sample (Finish 0) (unsubscribe streaming_1 (Some ''1''))) = [Some ''1'']
   \<and> operations (unsubscribe streaming_1 (Some ''1'')) = [(Some ''1'', 0)]
   \<and> step sample (Finish 0) streaming_1
       \<noteq> step sample (Finish 0) (unsubscribe streaming_1 (Some ''1''))"
  by (simp add: streaming_1_eq unsubscribe_def finish_def on_subscribe_finally_def
      send_message_def send_def dict_del_def)

section \<open>Results\<close>

text \<open>
  C5 (as amended). When the engine answers a waiting Subscribe with a single result, the
  server sends exactly one message, a Next for that id whose payload carries
  \<open>hasNext = false\<close> when the result has data and no \<open>hasNext\<close> field when it has none;
  no registry entry is created, no Complete message (for any id) is sent, and the task
  has finished for good: it takes no further step in any continuation of the run.
\<close>

theorem single_result_reply:
  assumes "i < length (tasks s)" and "tasks s ! i = Awaiting_engine k entry"
  shows "step D (Engine_returns i (Execution_result r)) s
           = s\<lparr>trace := trace s @ [next_message (format_error D) k r False],
               tasks := (tasks s)[i := Done]\<rparr>
    \<and> next_message (format_error D) k r False
        = Send (JDict (build_message k NEXT (JDict (execution_payload (format_error D) r False))))
    \<and> map_of (execution_payload (format_error D) r False) ''hasNext''
        = (if truthy (data r) then Some (JBool False) else None)
    \<and> operations (step D (Engine_returns i (Execution_result r)) s) = operations s
    \<and> (\<forall>k'. completes k' (step D (Engine_returns i (Execution_result r)) s) = completes k' s)
    \<and> (\<forall>es. tasks (run D es (step D (Engine_returns i (Execution_result r)) s)) ! i = Done)"
proof -
  let ?s1 = "step D (Engine_returns i (Execution_result r)) s"
  have eq: "?s1 = s\<lparr>trace := trace s @ [next_message (format_error D) k r False],
                     tasks := (tasks s)[i := Done]\<rparr>"
    using assms by (simp add: on_subscribe_result_def send_execution_result_eq)
  have dn: "i < length (tasks ?s1) \<and> tasks ?s1 ! i = Done" using eq assms by simp
  have forever: "tasks (run D es ?s1) ! i = Done" for es
    using done_forever [of i ?s1 D es] dn by simp
  have cnt: "completes k' ?s1 = completes k' s" for k'
    by (simp add: on_subscribe_result_completes)
  show ?thesis using eq forever cnt
    by (simp add: has_next_field next_message_def)
qed

theorem single_result_reply_witness:
  "step sample (Engine_returns 0 (Execution_result pong_result)) waiting_1
     = waiting_1\<lparr>trace :=
         [Send (JDict [(''type'', JStr ''next''), (''id'', JStr ''1''),
            (''payload'', JDict [(''data'', JDict [(''ping'', JStr ''pong'')]),
                                 (''hasNext'', JBool False)])])],
         tasks := [Done]\<rparr>"
proof -
  have a: "0 < length (tasks waiting_1)" by (simp add: waiting_1_eq)
  have b: "tasks waiting_1 ! 0 = Awaiting_engine (Some ''1'') Execute_entry"
    by (simp add: waiting_1_eq)
  have "step sample (Engine_returns 0 (Execution_result pong_result)) waiting_1
          = waiting_1\<lparr>trace := trace waiting_1
                @ [next_message (format_error sample) (Some ''1'') pong_result False],
               tasks := (tasks waiting_1)[0 := Done]\<rparr>"
    using single_result_reply [OF a b, of sample pong_result] by blast
  then show ?thesis
    by (simp add: waiting_1_eq next_message_def build_message_def execution_payload_def
        pong_result_def sample_def)
qed

text \<open>
  C5 as stated fails for a result without data (a query that failed): the one Next
  message carries the errors and no \<open>hasNext\<close> field.
\<close>

theorem single_result_without_data_counterexample:
  "trace (run sample [Receive (Some ''query 1''),
                      Engine_returns 0 (Execution_result failed_result)] new_connection)
     = [Send (JDict [(''type'', JStr ''next''), (''id'', JStr ''1''),
          (''payload'', JDict [(''errors'', JList [JStr ''boom''])])])]
   \<and> map_of (execution_payload JStr failed_result False) ''hasNext'' \<noteq> Some (JBool False)"
  by (simp add: sample_def sample_loads_def new_connection_def on_message_def
      on_subscribe_def dict_contains_def on_subscribe_result_def send_execution_result_def
      send_message_def send_def build_message_def execution_payload_def failed_result_def)

text \<open>
  C7 (as amended). For a task streaming under an id, every result its iterator yields is
  sent at once as a Next message for that id, whose payload carries \<open>hasNext = true\<close>
  when the result has data and no \<open>hasNext\<close> field when it has none. The Next messages
  are sent in the order of production: results yielded one after the other give exactly
  the list of their Next messages, and in any interleaving with other events (while the
  loop has not ended) the Next messages of the yielded results appear in the trace in
  the order in which the results were yielded.
\<close>

theorem stream_results_in_order:
  assumes "i < length (tasks s)" and "tasks s ! i = Streaming k"
  shows "step D (Yield i v) s = s\<lparr>trace := trace s @ [next_message (format_error D) k v True]\<rparr>
    \<and> next_message (format_error D) k v True
        = Send (JDict (build_message k NEXT (JDict (execution_payload (format_error D) v True))))
    \<and> map_of (execution_payload (format_error D) v True) ''hasNext''
        = (if truthy (data v) then Some (JBool True) else None)
    \<and> run D (map (Yield i) vs) s
        = s\<lparr>trace := trace s @ map (\<lambda>v. next_message (format_error D) k v True) vs\<rparr>
    \<and> (Finish i \<notin> set es \<and> Connection_closed \<notin> set es
       \<longrightarrow> subseq (map (\<lambda>v. next_message (format_error D) k v True) (yields_of i es))
             (drop (length (trace s)) (trace (run D es s))))"
proof -
  have one: "step D (Yield i v) s
               = s\<lparr>trace := trace s @ [next_message (format_error D) k v True]\<rparr>"
    using assms by (rule yield_streaming)
  have many: "run D (map (Yield i) vs) s
        = s\<lparr>trace := trace s @ map (\<lambda>v. next_message (format_error D) k v True) vs\<rparr>"
    using assms by (rule yields_in_order)
  have mixed: "subseq (map (\<lambda>v. next_message (format_error D) k v True) (yields_of i es))
             (drop (length (trace s)) (trace (run D es s)))"
    if "Finish i \<notin> set es" "Connection_closed \<notin> set es"
    using assms that by (rule yields_subseq)
  show ?thesis using one many mixed
    by (simp add: has_next_field) (simp add: next_message_def)
qed

theorem stream_results_in_order_witness:
  "trace (run sample [Yield 0 pong_result, Yield 0 failed_result] streaming_1)
     = [Send (JDict [(''type'', JStr ''next''), (''id'', JStr ''1''),
          (''payload'', JDict [(''data'', JDict [(''ping'', JStr ''pong'')]),
                               (''hasNext'', JBool True)])]),
        Send (JDict [(''type'', JStr ''next''), (''id'', JStr ''1''),
          (''payload'', JDict [(''errors'', JList [JStr ''boom''])])])]"
proof -
  have a: "0 < length (tasks streaming_1)" by (simp add: streaming_1_eq)
  have b: "tasks streaming_1 ! 0 = Streaming (Some ''1'')" by (simp add: streaming_1_eq)
  have "run sample (map (Yield 0) [pong_result, failed_result]) streaming_1
          = streaming_1\<lparr>trace := trace streaming_1
              @ map (\<lambda>v. next_message (format_error sample) (Some ''1'') v True)
                  [pong_result, failed_result]\<rparr>"
    using stream_results_in_order [OF a b, of sample _ "[pong_result, failed_result]"]
    by blast
  then have "trace (run sample [Yield 0 pong_result, Yield 0 failed_result] streaming_1)
          = map (\<lambda>v. next_message JStr (Some ''1'') v True) [pong_result, failed_result]"
    by (simp add: streaming_1_eq sample_def)
  then show ?thesis
    by (simp add: next_message_def build_message_def execution_payload_def
        pong_result_def failed_result_def)
qed

text \<open>
  C7 as stated fails for a yielded result without data: its Next message has no
  \<open>hasNext\<close> field.
\<close>

theorem stream_result_without_data_counterexample:
  "trace (step sample (Yield 0 failed_result) streaming_1)
     = [Send (JDict [(''type'', JStr ''next''), (''id'', JStr ''1''),
          (''payload'', JDict [(''errors'', JList [JStr ''boom''])])])]
   \<and> map_of (execution_payload JStr failed_result True) ''hasNext'' \<noteq> Some (JBool True)"
  by (simp add: streaming_1_eq sample_def on_subscribe_value_def send_execution_result_def
      send_message_def send_def build_message_def execution_payload_def failed_result_def)

section \<open>Further facts\<close>

text \<open>
  X1. The aiohttp binding's \<open>send\<close> writes the text to an open socket and does nothing at
  all on a closed one.
\<close>

theorem aiohttp_send_closed:
  "aiohttp_send ws txt
     = (if closed ws then ws else ws\<lparr>ws_written := ws_written ws @ [txt]\<rparr>)"
  by (simp add: aiohttp_send_def)

theorem aiohttp_send_closed_witness:
  "aiohttp_send \<lparr>ws_closed = False, ws_written = []\<rparr> ''a''
     = \<lparr>ws_closed = False, ws_written = [''a'']\<rparr>
   \<and> aiohttp_send \<lparr>ws_closed = True, ws_written = []\<rparr> ''a''
     = \<lparr>ws_closed = True, ws_written = []\<rparr>"
  using aiohttp_send_closed [of "\<lparr>ws_closed = False, ws_written = []\<rparr>" "''a''"]
    aiohttp_send_closed [of "\<lparr>ws_closed = True, ws_written = []\<rparr>" "''a''"]
  by (simp add: closed_def)

text \<open>
  X2. A Ping message is answered with one Pong message that has no id and no payload,
  whatever id and payload the Ping carried; nothing else changes.
\<close>

theorem ping_reply:
  "loads D m = Inr l \<Longrightarrow> msg_type l = PING \<Longrightarrow>
   step D (Receive m) s = s\<lparr>trace := trace s @ [Send (JDict [(''type'', JStr ''pong'')])]\<rparr>"
  by (simp add: on_message_def on_ping_def send_message_def send_def build_message_def)

theorem ping_reply_witness:
  "step sample (Receive (Some ''ping'')) new_connection
     = new_connection\<lparr>trace := [Send (JDict [(''type'', JStr ''pong'')])]\<rparr>"
  using ping_reply [of sample "Some ''ping''"
      "\<lparr>msg_type = PING, msg_id = Some ''7'', msg_payload = False\<rparr>" new_connection]
  by (simp add: sample_def sample_loads_def) (simp add: new_connection_def)

text \<open>
  X3. A Complete message for an id that is not in the registry changes nothing: no
  iterator is closed, no hook is called, nothing is sent.
\<close>

theorem complete_absent_id:
  "loads D m = Inr l \<Longrightarrow> msg_type l = COMPLETE
   \<Longrightarrow> map_of (operations s) (Some (id_or_empty (msg_id l))) = None
   \<Longrightarrow> step D (Receive m) s = s"
  by (simp add: on_message_def on_complete_def unsubscribe_def)

theorem complete_absent_id_witness:
  "step sample (Receive (Some ''complete 1'')) new_connection = new_connection"
  using complete_absent_id [of sample "Some ''complete 1''"
      "\<lparr>msg_type = COMPLETE, msg_id = Some ''1'', msg_payload = False\<rparr>" new_connection]
  by (simp add: sample_loads_simps id_or_empty_def new_connection_def)

text \<open>
  X4. What the duplicate check does when it finds the id: in every run the registry has
  no key twice, and a Subscribe whose id is in the registry at the moment
  \<^verbatim>\<open>on_subscribe\<close> starts closes the connection with the duplicate-id code and does
  nothing else: no engine call is started (no task is added) and the registry, with the
  iterator stored under that id, is left as it is.
\<close>

theorem duplicate_subscribe_closes:
  "distinct (map fst (operations (run D es new_connection)))
   \<and> (loads D m = Inr l \<and> msg_type l = SUBSCRIBE \<and> dict_contains (operations s) (msg_id l)
      \<longrightarrow> step D (Receive m) s = s\<lparr>trace := trace s @ [Close WS_ERROR_ID_ALREADY_EXISTS]\<rparr>)"
proof -
  have "registry_ok (run D es new_connection)"
    using registry_ok_run [OF registry_ok_new] .
  then show ?thesis
    by (simp add: registry_ok_def on_message_def on_subscribe_def close_def)
qed

theorem duplicate_subscribe_closes_witness:
  "distinct (map fst (operations streaming_1))
   \<and> step sample (Receive (Some ''subscribe 1'')) streaming_1
       = streaming_1\<lparr>trace := [Close WS_ERROR_ID_ALREADY_EXISTS]\<rparr>"
  using duplicate_subscribe_closes [of sample
      "[Receive (Some ''subscribe 1''), Engine_returns 0 Async_iterator]"
      "Some ''subscribe 1''"
      "\<lparr>msg_type = SUBSCRIBE, msg_id = Some ''1'', msg_payload = True\<rparr>" streaming_1]
  by (simp add: sample_loads_simps dict_contains_def streaming_1_def [symmetric])
     (simp add: streaming_1_eq)

end
